theory Spec2Isabelle
  imports Main
begin

section \<open>Python values\<close>

text \<open>
  The values that \<^verbatim>\<open>response.json()\<close> hands to the program: \<^verbatim>\<open>None\<close>, booleans,
  integers, strings, lists and dicts. A dict is its list of items; a lookup takes the first
  binding of a key. Strings are lists of code points below 256. Non-integer numbers are left
  out: no operation of the program computes with a number.
\<close>

datatype json =
    JNull
  | JBool bool
  | JInt int
  | JStr string
  | JArr "json list"
  | JObj "(string \<times> json) list"

text \<open>
  The exceptions the model follows: those of the operations on values, of \<^verbatim>\<open>input\<close> at
  the end of the input, and of \<^verbatim>\<open>open\<close>. \<open>OSError\<close> is the class itself, raised for a
  name that is too long; its subclasses have their own names.
\<close>

datatype error =
    AttributeError | TypeError | EOFError
  | ValueError | OSError | FileNotFoundError | NotADirectoryError | IsADirectoryError

text \<open>\<^verbatim>\<open>d.get(key, default)\<close>: only a dict has the method.\<close>

fun dict_get :: "json \<Rightarrow> string \<Rightarrow> json \<Rightarrow> error + json" where
  "dict_get (JObj kvs) k d = Inr (case map_of kvs k of None \<Rightarrow> d | Some v \<Rightarrow> v)"
| "dict_get _ k d = Inl AttributeError"

text \<open>Truth value of an object, as \<^verbatim>\<open>if authors\<close> and \<^verbatim>\<open>if not results\<close> test it.\<close>

fun truthy :: "json \<Rightarrow> bool" where
  "truthy JNull = False"
| "truthy (JBool b) = b"
| "truthy (JInt n) = (n \<noteq> 0)"
| "truthy (JStr s) = (s \<noteq> [])"
| "truthy (JArr xs) = (xs \<noteq> [])"
| "truthy (JObj kvs) = (kvs \<noteq> [])"

text \<open>
  Iteration (\<^verbatim>\<open>for x in v\<close>, \<^verbatim>\<open>list.extend(v)\<close>): a list gives its elements, a string
  its characters, a dict its keys; anything else raises \<^verbatim>\<open>TypeError\<close>.
\<close>

fun py_iter :: "json \<Rightarrow> error + json list" where
  "py_iter (JArr xs) = Inr xs"
| "py_iter (JStr s) = Inr (map (\<lambda>c. JStr [c]) s)"
| "py_iter (JObj kvs) = Inr (map JStr (remdups (map fst kvs)))"
| "py_iter _ = Inl TypeError"

text \<open>
  Membership in a \<^verbatim>\<open>set\<close> goes through \<^verbatim>\<open>hash\<close> and \<^verbatim>\<open>==\<close>: lists and dicts are
  unhashable, \<^verbatim>\<open>True\<close> and \<^verbatim>\<open>1\<close> (\<^verbatim>\<open>False\<close> and \<^verbatim>\<open>0\<close>) are the same element.
  \<open>py_key\<close> gives the element a value stands for, \<open>None\<close> when it is unhashable.
\<close>

fun py_key :: "json \<Rightarrow> json option" where
  "py_key (JArr xs) = None"
| "py_key (JObj kvs) = None"
| "py_key (JBool b) = Some (JInt (if b then 1 else 0))"
| "py_key v = Some v"

text \<open>\<^verbatim>\<open>sep.join(xs)\<close>: every element has to be a string.\<close>

fun join_str :: "string \<Rightarrow> string list \<Rightarrow> string" where
  "join_str sep [] = []"
| "join_str sep [x] = x"
| "join_str sep (x # y # ys) = x @ sep @ join_str sep (y # ys)"

fun as_strs :: "json list \<Rightarrow> error + string list" where
  "as_strs [] = Inr []"
| "as_strs (JStr s # vs) = (case as_strs vs of Inl e \<Rightarrow> Inl e | Inr ss \<Rightarrow> Inr (s # ss))"
| "as_strs (_ # vs) = Inl TypeError"

definition py_join :: "string \<Rightarrow> json list \<Rightarrow> error + string" where
  "py_join sep vs = (case as_strs vs of Inl e \<Rightarrow> Inl e | Inr ss \<Rightarrow> Inr (join_str sep ss))"

section \<open>The formatter\<close>

text \<open>
  The list comprehension \<^verbatim>\<open>[author.get("name", "N/A") for author in authors]\<close>, stopping
  at the first element that raises.
\<close>

fun get_names :: "json list \<Rightarrow> error + json list" where
  "get_names [] = Inr []"
| "get_names (author # others) =
     (case dict_get author ''name'' (JStr ''N/A'') of
        Inl e \<Rightarrow> Inl e
      | Inr n \<Rightarrow> (case get_names others of Inl e \<Rightarrow> Inl e | Inr ns \<Rightarrow> Inr (n # ns)))"

definition author_names :: "json \<Rightarrow> error + json list" where
  "author_names authors =
     (if truthy authors
      then (case py_iter authors of Inl e \<Rightarrow> Inl e | Inr xs \<Rightarrow> get_names xs)
      else Inr [JStr ''N/A''])"

text \<open>One pass of the loop body of \<^verbatim>\<open>format_google_scholar_results\<close>.\<close>

definition format_result :: "json \<Rightarrow> error + json" where
  "format_result result =
     (case dict_get result ''publication_info'' (JObj []) of
        Inl e \<Rightarrow> Inl e
      | Inr publication_info \<Rightarrow>
     (case dict_get publication_info ''authors'' (JArr []) of
        Inl e \<Rightarrow> Inl e
      | Inr authors \<Rightarrow>
     (case author_names authors of
        Inl e \<Rightarrow> Inl e
      | Inr names \<Rightarrow>
     (case dict_get result ''title'' (JStr ''N/A'') of
        Inl e \<Rightarrow> Inl e
      | Inr title \<Rightarrow>
     (case py_join '', '' names of
        Inl e \<Rightarrow> Inl e
      | Inr joined \<Rightarrow>
     (case dict_get result ''link'' (JStr ''N/A'') of
        Inl e \<Rightarrow> Inl e
      | Inr link \<Rightarrow>
          Inr (JObj [(''Type'', JStr ''Research Paper''),
                     (''Title'', title),
                     (''Authors/Inventors'', JStr joined),
                     (''Link/Patent Number'', link)])))))))"

fun format_google_scholar_results :: "json list \<Rightarrow> error + json list" where
  "format_google_scholar_results [] = Inr []"
| "format_google_scholar_results (result # results) =
     (case format_result result of
        Inl e \<Rightarrow> Inl e
      | Inr r \<Rightarrow>
          (case format_google_scholar_results results of
             Inl e \<Rightarrow> Inl e
           | Inr rs \<Rightarrow> Inr (r # rs)))"

section \<open>The world outside the program\<close>

text \<open>
  What the program changes: the requests it has sent, the files it has written (a CSV file
  is the list of rows handed to \<^verbatim>\<open>writer.writerow\<close>, a row the list of its cells), and
  the lines it has printed. \<open>dirs\<close> is what it finds: the paths that name a directory.
\<close>

record params =
  engine :: string
  q :: string
  api_key :: string
  num :: int
  start :: int

record world =
  requests :: "(string \<times> params) list"
  files :: "string \<rightharpoonup> json list list"
  stdout :: "string list"
  dirs :: "string set"

definition print :: "string \<Rightarrow> world \<Rightarrow> world" where
  "print line w = w\<lparr>stdout := stdout w @ [line]\<rparr>"

text \<open>The two module-level constants.\<close>

record config =
  SERPAPI_KEY :: string
  SAVE_DIRECTORY :: string

section \<open>The writer\<close>

text \<open>\<^verbatim>\<open>os.path.join\<close> of a directory and a file name.\<close>

definition path_join :: "string \<Rightarrow> string \<Rightarrow> string" where
  "path_join a b =
     (if b \<noteq> [] \<and> hd b = CHR ''/'' then b
      else if a = [] \<or> last a = CHR ''/'' then a @ b
      else a @ ''/'' @ b)"

definition output_file :: "config \<Rightarrow> string \<Rightarrow> string \<Rightarrow> string" where
  "output_file cfg query timestamp =
     path_join (SAVE_DIRECTORY cfg) (''research_results_'' @ query @ ''_'' @ timestamp @ ''.csv'')"

text \<open>
  \<^verbatim>\<open>open(path, "w")\<close> on a POSIX file system, as far as the path, the directories and the
  files decide it (permissions and a full disk are left out). A NUL in the path is refused
  by Python itself; a path of 4096 bytes or more, or a name of more than 255 bytes, is too
  long; then the path is walked name by name: a name before the last has to be a
  directory, and the last must not be one. An empty name (a doubled or leading slash)
  stands for the directory reached so far. \<open>None\<close> is success.
\<close>

definition nbytes :: "string \<Rightarrow> nat" where
  "nbytes s = length s + length (filter (\<lambda>c. 128 \<le> (of_char c :: nat)) s)"

fun components :: "string \<Rightarrow> string list" where
  "components [] = [] # []"
| "components (c # cs) =
     (if c = CHR ''/'' then [] # components cs
      else (case components cs of [] \<Rightarrow> [c] # [] | name # names \<Rightarrow> (c # name) # names))"

fun walk :: "string set \<Rightarrow> (string \<rightharpoonup> json list list) \<Rightarrow> string \<Rightarrow> string list \<Rightarrow> error option" where
  "walk ds fs pre [] = Some FileNotFoundError"
| "walk ds fs pre [name] =
     (if name = [] then Some IsADirectoryError
      else if 255 < nbytes name then Some OSError
      else if pre @ name \<in> ds then Some IsADirectoryError
      else None)"
| "walk ds fs pre (name # names) =
     (if name = [] then walk ds fs (pre @ ''/'') names
      else if 255 < nbytes name then Some OSError
      else if pre @ name \<in> ds then walk ds fs (pre @ name @ ''/'') names
      else if fs (pre @ name) \<noteq> None then Some NotADirectoryError
      else Some FileNotFoundError)"

definition open_w :: "world \<Rightarrow> string \<Rightarrow> error option" where
  "open_w w path =
     (if path = [] then Some FileNotFoundError
      else if CHR 0x00 \<in> set path then Some ValueError
      else if 4096 \<le> nbytes path then Some OSError
      else walk (dirs w) (files w) [] (components path))"

definition header :: "json list" where
  "header = [JStr ''ID'', JStr ''Type'', JStr ''Title'', JStr ''Authors/Inventors'',
             JStr ''Link/Patent Number'']"

text \<open>\<^verbatim>\<open>item.get(key, "N/A")\<close> on the items of a dict.\<close>

definition item_get :: "(string \<times> json) list \<Rightarrow> string \<Rightarrow> json" where
  "item_get kvs k = (case map_of kvs k of None \<Rightarrow> JStr ''N/A'' | Some v \<Rightarrow> v)"

definition csv_row :: "int \<Rightarrow> (string \<times> json) list \<Rightarrow> json list" where
  "csv_row idx kvs =
     [JInt idx, item_get kvs ''Type'', item_get kvs ''Title'',
      item_get kvs ''Authors/Inventors'', item_get kvs ''Link/Patent Number'']"

text \<open>
  The loop \<^verbatim>\<open>for idx, item in enumerate(results, start=1)\<close>: \<open>idx\<close> is the counter of
  \<^verbatim>\<open>enumerate\<close>, \<open>seen\<close> the set \<^verbatim>\<open>seen_titles\<close>. The result is the rows written, and
  the exception that ended the loop, if any.
\<close>

fun write_rows :: "int \<Rightarrow> json list \<Rightarrow> json list \<Rightarrow> json list list \<times> error option" where
  "write_rows idx seen [] = ([], None)"
| "write_rows idx seen (JObj kvs # items) =
     (case py_key (item_get kvs ''Title'') of
        None \<Rightarrow> ([], Some TypeError)
      | Some k \<Rightarrow>
          if k \<notin> set seen
          then (case write_rows (idx + 1) (k # seen) items of
                  (rows, e) \<Rightarrow> (csv_row idx kvs # rows, e))
          else write_rows (idx + 1) seen items)"
| "write_rows idx seen (_ # items) = ([], Some AttributeError)"

definition save_results :: "config \<Rightarrow> json list \<Rightarrow> string \<Rightarrow> string \<Rightarrow> world \<Rightarrow> error option \<times> world" where
  "save_results cfg results query timestamp w =
     (if results = [] then (None, print ''No results found. Skipping file save.'' w)
      else
        (case open_w w (output_file cfg query timestamp) of
           Some err \<Rightarrow> (Some err, w)
         | None \<Rightarrow>
        (case write_rows 1 [] results of
           (rows, e) \<Rightarrow>
             (let w1 = w\<lparr>files := (files w)(output_file cfg query timestamp \<mapsto> header # rows)\<rparr>
              in case e of
                   Some err \<Rightarrow> (Some err, w1)
                 | None \<Rightarrow>
                     (None, print (''Results saved to '' @ output_file cfg query timestamp) w1)))))"

section \<open>The fetcher\<close>

text \<open>
  What one GET does, as the program sees it: a response with a status and a body, where
  \<^verbatim>\<open>response.json()\<close> either returns a value or raises an exception with some text; or an
  exception raised by the transport (timeout, DNS, connection reset) with some text.
  A session answers each request.
\<close>

datatype http_outcome =
    Response int "string + json"
  | TransportFailure string

type_synonym session = "string \<Rightarrow> params \<Rightarrow> http_outcome"

text \<open>\<^verbatim>\<open>str\<close> of an integer, for the f-strings.\<close>

function str_nat :: "nat \<Rightarrow> string" where
  "str_nat n = (if n < 10 then [char_of (48 + n)] else str_nat (n div 10) @ [char_of (48 + n mod 10)])"
  by pat_completeness auto
termination
  by (relation "measure id") auto

declare str_nat.simps [simp del]

definition str_int :: "int \<Rightarrow> string" where
  "str_int i = (if i < 0 then CHR ''-'' # str_nat (nat (- i)) else str_nat (nat i))"

text \<open>
  The body of the \<^verbatim>\<open>try\<close>: \<open>Inl\<close> is an exception raised inside it, with its text.
\<close>

definition try_get :: "session \<Rightarrow> string \<Rightarrow> params \<Rightarrow> world \<Rightarrow> (string + json) \<times> world" where
  "try_get sess url ps w =
     (let w1 = w\<lparr>requests := requests w @ [(url, ps)]\<rparr>
      in case sess url ps of
           TransportFailure msg \<Rightarrow> (Inl msg, w1)
         | Response status body \<Rightarrow>
             if status = 200 then (body, w1)
             else (Inr (JObj []),
                   print (''Error: Received status code '' @ str_int status @ '' from '' @ url) w1))"

text \<open>\<^verbatim>\<open>except Exception as e\<close> catches whatever the body raised.\<close>

definition fetch :: "session \<Rightarrow> string \<Rightarrow> params \<Rightarrow> world \<Rightarrow> json \<times> world" where
  "fetch sess url ps w =
     (case try_get sess url ps w of
        (Inl msg, w1) \<Rightarrow> (JObj [], print (''Error fetching data from '' @ url @ '': '' @ msg) w1)
      | (Inr v, w1) \<Rightarrow> (v, w1))"

section \<open>The paginator\<close>

text \<open>\<^verbatim>\<open>range(lo, hi, step)\<close> for a positive step.\<close>

function py_range :: "int \<Rightarrow> int \<Rightarrow> int \<Rightarrow> int list" where
  "py_range lo hi step = (if 0 < step \<and> lo < hi then lo # py_range (lo + step) hi step else [])"
  by pat_completeness auto
termination
  by (relation "measure (\<lambda>(lo, hi, step). nat (hi - lo))") auto

declare py_range.simps [simp del]

definition request_params :: "config \<Rightarrow> string \<Rightarrow> int \<Rightarrow> params" where
  "request_params cfg query offset =
     \<lparr>engine = ''google_scholar'', q = query, api_key = SERPAPI_KEY cfg, num = 10, start = offset\<rparr>"

text \<open>
  The loop over the offsets still to visit; \<open>all_results\<close> is the accumulator. An
  exception leaves the loop and the function.
\<close>

fun fetch_batches ::
  "config \<Rightarrow> session \<Rightarrow> string \<Rightarrow> int list \<Rightarrow> json list \<Rightarrow> world \<Rightarrow> (error + json list) \<times> world" where
  "fetch_batches cfg sess query [] all_results w = (Inr all_results, w)"
| "fetch_batches cfg sess query (offset # later) all_results w =
     (case fetch sess ''https://serpapi.com/search'' (request_params cfg query offset) w of
        (data, w1) \<Rightarrow>
          (case dict_get data ''organic_results'' (JArr []) of
             Inl e \<Rightarrow> (Inl e, w1)
           | Inr page \<Rightarrow>
               (case py_iter page of
                  Inl e \<Rightarrow> (Inl e, w1)
                | Inr items \<Rightarrow>
                    if length items < 10 then (Inr (all_results @ items), w1)
                    else fetch_batches cfg sess query later (all_results @ items) w1)))"

definition get_google_scholar_results ::
  "config \<Rightarrow> session \<Rightarrow> string \<Rightarrow> int \<Rightarrow> world \<Rightarrow> (error + json list) \<times> world" where
  "get_google_scholar_results cfg sess query num_results w =
     fetch_batches cfg sess query (py_range 0 num_results 10) [] w"

section \<open>The interactive loop\<close>

text \<open>\<^verbatim>\<open>str.lower\<close>, \<^verbatim>\<open>str.isspace\<close> and \<^verbatim>\<open>str.strip\<close> on code points below 256.\<close>

definition lower_char :: "char \<Rightarrow> char" where
  "lower_char c =
     (let n = (of_char c :: nat)
      in if (65 \<le> n \<and> n \<le> 90) \<or> (192 \<le> n \<and> n \<le> 222 \<and> n \<noteq> 215) then char_of (n + 32) else c)"

definition py_lower :: "string \<Rightarrow> string" where
  "py_lower s = map lower_char s"

definition py_isspace :: "char \<Rightarrow> bool" where
  "py_isspace c = ((of_char c :: nat) \<in> {9, 10, 11, 12, 13, 28, 29, 30, 31, 32, 133, 160})"

definition py_strip :: "string \<Rightarrow> string" where
  "py_strip s = rev (dropWhile py_isspace (rev (dropWhile py_isspace s)))"

text \<open>
  One turn of the operator: the line typed, how the network answers during the turn, and
  what \<^verbatim>\<open>datetime.now().strftime(...)\<close> gives when the file is named.
\<close>

record turn =
  typed :: string
  net :: session
  clock :: string

datatype control = Continue | Break

definition prompt :: string where
  "prompt = ''Enter search keyword (or type '' @ [CHR 0x27] @ ''exit'' @ [CHR 0x27] @ '' to quit): ''"

text \<open>The body of \<^verbatim>\<open>while True\<close>.\<close>

definition iteration :: "config \<Rightarrow> turn \<Rightarrow> world \<Rightarrow> (error + control) \<times> world" where
  "iteration cfg t w =
     (let w0 = print prompt w; query = typed t
      in if py_lower query = ''exit'' then (Inr Break, print ''Exiting script.'' w0)
         else if py_strip query = []
         then (Inr Continue, print ''Query is empty. Please enter a valid search keyword.'' w0)
         else
           (case get_google_scholar_results cfg (net t) query 50
                   (print ''Fetching Google Scholar results...'' w0) of
              (Inl e, w2) \<Rightarrow> (Inl e, w2)
            | (Inr scholar_results, w2) \<Rightarrow>
                (let w3 = print (''Fetched '' @ str_nat (length scholar_results)
                                   @ '' Google Scholar results.'') w2
                 in case format_google_scholar_results scholar_results of
                      Inl e \<Rightarrow> (Inl e, w3)
                    | Inr formatted_scholar_results \<Rightarrow>
                        (case save_results cfg formatted_scholar_results query (clock t) w3 of
                           (Some e, w4) \<Rightarrow> (Inl e, w4)
                         | (None, w4) \<Rightarrow> (Inr Continue, w4)))))"

text \<open>
  The loop over the lines the operator types; at the end of the input, \<^verbatim>\<open>input\<close> raises
  \<^verbatim>\<open>EOFError\<close> after printing its prompt.
\<close>

fun main :: "config \<Rightarrow> turn list \<Rightarrow> world \<Rightarrow> error option \<times> world" where
  "main cfg [] w = (Some EOFError, print prompt w)"
| "main cfg (t # ts) w =
     (case iteration cfg t w of
        (Inl e, w1) \<Rightarrow> (Some e, w1)
      | (Inr Break, w1) \<Rightarrow> (None, w1)
      | (Inr Continue, w1) \<Rightarrow> main cfg ts w1)"

section \<open>Notions used in the statements\<close>

fun is_dict :: "json \<Rightarrow> bool" where
  "is_dict (JObj kvs) = True"
| "is_dict _ = False"

fun is_str :: "json \<Rightarrow> bool" where
  "is_str (JStr s) = True"
| "is_str _ = False"

fun fields :: "json \<Rightarrow> (string \<times> json) list" where
  "fields (JObj kvs) = kvs"
| "fields _ = []"

text \<open>The title the writer reads from a record: \<^verbatim>\<open>item.get("Title", "N/A")\<close>.\<close>

definition title_of :: "json \<Rightarrow> json" where
  "title_of item = item_get (fields item) ''Title''"

text \<open>A record as the data model has it for the writer: a dict whose title is a string.\<close>

definition string_titled :: "json \<Rightarrow> bool" where
  "string_titled r = (is_dict r \<and> is_str (title_of r))"

text \<open>
  The positions of the first occurrences in a list, in increasing order: position \<open>i\<close>
  is kept when the element there does not occur before \<open>i\<close>. \<open>fresh_positions\<close> is
  the same with a set of elements already seen.
\<close>

definition first_positions :: "'a list \<Rightarrow> nat list" where
  "first_positions xs = filter (\<lambda>i. xs ! i \<notin> set (take i xs)) [0..<length xs]"

definition fresh_positions :: "'a list \<Rightarrow> 'a list \<Rightarrow> nat list" where
  "fresh_positions seen xs = filter (\<lambda>i. xs ! i \<notin> set seen \<union> set (take i xs)) [0..<length xs]"

text \<open>The positions of the records that survive deduplication by title.\<close>

definition surviving :: "json list \<Rightarrow> nat list" where
  "surviving results = first_positions (map title_of results)"

text \<open>The data rows of a file: what follows the header.\<close>

definition data_rows :: "world \<Rightarrow> string \<Rightarrow> json list list" where
  "data_rows w name = (case files w name of Some (h # rows) \<Rightarrow> rows | _ \<Rightarrow> [])"

text \<open>
  An author entry as the data model has it: a dict whose name, when there is one, is a
  string; and the name the formatter is to take from it.
\<close>

fun the_str :: "json \<Rightarrow> string" where
  "the_str (JStr s) = s"
| "the_str _ = []"

definition named_author :: "json \<Rightarrow> bool" where
  "named_author a =
     (is_dict a \<and> (case map_of (fields a) ''name'' of None \<Rightarrow> True | Some n \<Rightarrow> is_str n))"

definition name_or_NA :: "json \<Rightarrow> string" where
  "name_or_NA a = (case map_of (fields a) ''name'' of None \<Rightarrow> ''N/A'' | Some n \<Rightarrow> the_str n)"

text \<open>The record the formatter builds from a result's fields and the joined authors.\<close>

definition formatted :: "(string \<times> json) list \<Rightarrow> string \<Rightarrow> json" where
  "formatted kvs authors =
     JObj [(''Type'', JStr ''Research Paper''),
           (''Title'', item_get kvs ''title''),
           (''Authors/Inventors'', JStr authors),
           (''Link/Patent Number'', item_get kvs ''link'')]"

text \<open>
  A raw result as the data model has it: a dict whose title, when there is one, is a
  string, and whose \<^verbatim>\<open>publication_info\<close>, when there is one, is a dict whose
  \<^verbatim>\<open>authors\<close>, when there are some, is a list of author entries. A titleless result
  has no \<^verbatim>\<open>title\<close> field.
\<close>

definition titleless :: "json \<Rightarrow> bool" where
  "titleless r = (is_dict r \<and> map_of (fields r) ''title'' = None)"

definition raw_result :: "json \<Rightarrow> bool" where
  "raw_result r =
     (is_dict r
      \<and> (case map_of (fields r) ''title'' of None \<Rightarrow> True | Some t \<Rightarrow> is_str t)
      \<and> (case map_of (fields r) ''publication_info'' of
            None \<Rightarrow> True
          | Some p \<Rightarrow>
              is_dict p
              \<and> (case map_of (fields p) ''authors'' of
                    None \<Rightarrow> True
                  | Some (JArr authors) \<Rightarrow> list_all named_author authors
                  | Some _ \<Rightarrow> False)))"

text \<open>
  The address the paginator asks, the request it sends for an offset, and what it takes
  from the answer: \<open>data_of\<close> is the value \<^verbatim>\<open>fetch\<close> returns for an answer,
  \<open>organic_results\<close> the items \<^verbatim>\<open>data.get("organic_results", [])\<close> then yields when
  iterated, \<open>page_at\<close> the same for the request at an offset, and \<open>page_items\<close> those
  items, with none standing for an exception.
\<close>

definition search_url :: string where
  "search_url = ''https://serpapi.com/search''"

definition data_of :: "http_outcome \<Rightarrow> json" where
  "data_of answer =
     (case answer of
        Response status (Inr v) \<Rightarrow> if status = 200 then v else JObj []
      | _ \<Rightarrow> JObj [])"

definition organic_results :: "http_outcome \<Rightarrow> error + json list" where
  "organic_results answer =
     (case dict_get (data_of answer) ''organic_results'' (JArr []) of
        Inl e \<Rightarrow> Inl e
      | Inr page \<Rightarrow> py_iter page)"

definition request_at :: "config \<Rightarrow> string \<Rightarrow> int \<Rightarrow> string \<times> params" where
  "request_at cfg query offset = (search_url, request_params cfg query offset)"

definition page_at :: "config \<Rightarrow> session \<Rightarrow> string \<Rightarrow> int \<Rightarrow> error + json list" where
  "page_at cfg sess query offset = organic_results (sess search_url (request_params cfg query offset))"

definition page_items :: "config \<Rightarrow> session \<Rightarrow> string \<Rightarrow> int \<Rightarrow> json list" where
  "page_items cfg sess query offset =
     (case page_at cfg sess query offset of Inl e \<Rightarrow> [] | Inr items \<Rightarrow> items)"


text \<open>
  A failed fetch: a status other than 200, a body that does not decode, or an exception of
  the transport.
\<close>

definition failed :: "http_outcome \<Rightarrow> bool" where
  "failed answer =
     (case answer of
        Response status body \<Rightarrow> status \<noteq> 200 \<or> (case body of Inl msg \<Rightarrow> True | Inr v \<Rightarrow> False)
      | TransportFailure msg \<Rightarrow> True)"

text \<open>
  A successful answer with no results, and a session changed to give some answer to one
  request.
\<close>

definition empty_page :: http_outcome where
  "empty_page = Response 200 (Inr (JObj [(''organic_results'', JArr [])]))"

definition answering :: "session \<Rightarrow> string \<times> params \<Rightarrow> http_outcome \<Rightarrow> session" where
  "answering sess request answer = (\<lambda>u ps. if (u, ps) = request then answer else sess u ps)"

subsection \<open>Concrete inputs\<close>

definition paper :: "string \<Rightarrow> string \<Rightarrow> string \<Rightarrow> json" where
  "paper title authors link =
     JObj [(''Type'', JStr ''Research Paper''), (''Title'', JStr title),
           (''Authors/Inventors'', JStr authors), (''Link/Patent Number'', JStr link)]"

definition cfg0 :: config where
  "cfg0 = \<lparr>SERPAPI_KEY = ''key'', SAVE_DIRECTORY = ''research_results''\<rparr>"

definition world0 :: world where
  "world0 = \<lparr>requests = [], files = Map.empty, stdout = [], dirs = {''research_results''}\<rparr>"



definition untitled :: "string \<Rightarrow> json" where
  "untitled link = JObj [(''link'', JStr link)]"

definition titled :: "string \<Rightarrow> string \<Rightarrow> json" where
  "titled title link = JObj [(''title'', JStr title), (''link'', JStr link)]"

definition down :: session where
  "down = (\<lambda>u ps. TransportFailure ''timeout'')"

definition unavailable :: session where
  "unavailable = (\<lambda>u ps. Response 503 (Inl ''not json''))"

definition ten_items :: "json list" where
  "ten_items = replicate 10 (JObj [(''title'', JStr ''T''), (''link'', JStr ''http://t'')])"

definition ten_per_page :: session where
  "ten_per_page = (\<lambda>u ps. Response 200 (Inr (JObj [(''organic_results'', JArr ten_items)])))"


section \<open>First occurrences\<close>

lemma fresh_positions_Cons:
  "fresh_positions seen (x # xs) =
     (if x \<in> set seen then map Suc (fresh_positions seen xs)
      else 0 # map Suc (fresh_positions (x # seen) xs))"
proof -
  have "[0..<length (x # xs)] = 0 # map Suc [0..<length xs]"
    by (simp add: upt_conv_Cons map_Suc_upt del: upt_Suc)
  then show ?thesis
    by (auto simp add: fresh_positions_def filter_map comp_def intro!: filter_cong arg_cong [where f = "map Suc"])
qed

lemma write_rows_positions:
  assumes "\<forall>r \<in> set items. is_dict r \<and> py_key (title_of r) \<noteq> None"
  shows "write_rows idx seen items =
           (map (\<lambda>i. csv_row (idx + int i) (fields (items ! i)))
              (fresh_positions seen (map (\<lambda>r. the (py_key (title_of r))) items)), None)"
  using assms
proof (induction items arbitrary: idx seen)
  case Nil
  then show ?case by (simp add: fresh_positions_def)
next
  case (Cons r items)
  then obtain kvs k where r: "r = JObj kvs" and k: "py_key (item_get kvs ''Title'') = Some k"
    by (cases r) (auto simp add: title_of_def)
  have ih: "write_rows (idx + 1) s items =
           (map (\<lambda>i. csv_row (idx + 1 + int i) (fields (items ! i)))
              (fresh_positions s (map (\<lambda>r. the (py_key (title_of r))) items)), None)" for s
    using Cons by simp
  show ?case
    by (simp add: r k ih fresh_positions_Cons title_of_def comp_def add.assoc)
qed

lemma first_positions_fresh: "first_positions xs = fresh_positions [] xs"
  by (simp add: first_positions_def fresh_positions_def)



lemma first_positions_sorted: "sorted_wrt (<) (first_positions xs)"
  unfolding first_positions_def by (rule sorted_wrt_filter) simp

lemma first_positions_bound: "i \<in> set (first_positions xs) \<Longrightarrow> i < length xs"
  by (simp add: first_positions_def)



lemma string_titled_key:
  "string_titled r \<Longrightarrow> is_dict r \<and> py_key (title_of r) = Some (title_of r)"
  by (cases "title_of r") (auto simp add: string_titled_def)

lemma write_rows_string_titled:
  assumes "\<forall>r \<in> set items. string_titled r"
  shows "write_rows 1 [] items =
           (map (\<lambda>i. csv_row (int i + 1) (fields (items ! i))) (first_positions (map title_of items)), None)"
proof -
  have eq: "map (\<lambda>r. the (py_key (title_of r))) items = map title_of items"
    using assms by (simp add: string_titled_key)
  have "\<forall>r \<in> set items. is_dict r \<and> py_key (title_of r) \<noteq> None"
    using assms by (simp add: string_titled_key)
  from write_rows_positions [OF this, of 1 "[]"] show ?thesis
    unfolding eq first_positions_fresh by (simp add: add.commute)
qed

lemma open_q: "open_w world0 (output_file cfg0 ''q'' ''2024-01-01_00-00-00'') = None"
  by code_simp



lemma save_results_string_titled:
  assumes "\<forall>r \<in> set results. string_titled r" and "results \<noteq> []"
    and "open_w w (output_file cfg query timestamp) = None"
  shows "save_results cfg results query timestamp w =
           (None, print (''Results saved to '' @ output_file cfg query timestamp)
              (w\<lparr>files := (files w)(output_file cfg query timestamp \<mapsto>
                 header # map (\<lambda>i. csv_row (int i + 1) (fields (results ! i))) (surviving results))\<rparr>))"
  using assms by (simp add: save_results_def write_rows_string_titled surviving_def)

section \<open>Properties of the writer\<close>


lemma three_papers_titled:
  "\<forall>r \<in> set [paper ''A'' ''X'' ''l1'', paper ''A'' ''Y'' ''l2'', paper ''B'' ''Z'' ''l3'']. string_titled r"
  by (simp add: string_titled_def paper_def title_of_def item_get_def)

lemma three_papers_surviving:
  "surviving [paper ''A'' ''X'' ''l1'', paper ''A'' ''Y'' ''l2'', paper ''B'' ''Z'' ''l3''] = [0, 2]"
  by (simp add: surviving_def first_positions_def paper_def title_of_def item_get_def upt_rec)



lemma sorted_wrt_less_below_nth:
  fixes ps :: "nat list"
  assumes "sorted_wrt (<) ps" and "k < length ps"
  shows "{x \<in> set ps. x < ps ! k} = (!) ps ` {..<k}"
proof (intro equalityI subsetI)
  fix x assume "x \<in> {x \<in> set ps. x < ps ! k}"
  then obtain j where j: "j < length ps" "x = ps ! j" "ps ! j < ps ! k"
    by (auto simp add: in_set_conv_nth)
  have "j < k"
  proof (rule ccontr)
    assume "\<not> j < k"
    then consider "k = j" | "k < j" by linarith
    then show False
    proof cases
      case 1
      with j show False by simp
    next
      case 2
      with assms j have "ps ! k < ps ! j" by (simp add: sorted_wrt_nth_less)
      with j show False by simp
    qed
  qed
  with j show "x \<in> (!) ps ` {..<k}" by auto
next
  fix x assume "x \<in> (!) ps ` {..<k}"
  then obtain j where "j < k" "x = ps ! j" by auto
  with assms show "x \<in> {x \<in> set ps. x < ps ! k}"
    by (auto simp add: sorted_wrt_iff_nth_less)
qed

lemma sorted_wrt_less_count_below:
  fixes ps :: "nat list"
  assumes "sorted_wrt (<) ps" and "k < length ps"
  shows "card {x \<in> set ps. x < ps ! k} = k"
proof -
  have "inj_on ((!) ps) {..<k}"
    using assms by (auto simp add: inj_on_def sorted_wrt_iff_nth_less) (metis nat_neq_iff order.strict_trans less_irrefl)
  then show ?thesis
    by (simp add: sorted_wrt_less_below_nth [OF assms] card_image)
qed

lemma first_positions_skipped:
  assumes "k < length (first_positions xs)"
  shows "first_positions xs ! k =
           k + length (filter (\<lambda>j. j \<notin> set (first_positions xs)) [0..<first_positions xs ! k])"
proof -
  let ?ps = "first_positions xs" and ?p = "first_positions xs ! k"
  have p: "?p < length xs"
    using assms first_positions_bound [of ?p xs] by simp
  have "length (filter (\<lambda>j. j \<in> set ?ps) [0..<?p]) = card {j \<in> set [0..<?p]. j \<in> set ?ps}"
    by (simp add: distinct_length_filter Int_def conj_commute)
  also have "{j \<in> set [0..<?p]. j \<in> set ?ps} = {x \<in> set ?ps. x < ?p}"
    by auto
  also have "card \<dots> = k"
    by (rule sorted_wrt_less_count_below [OF first_positions_sorted assms])
  finally have "length (filter (\<lambda>j. j \<in> set ?ps) [0..<?p]) = k" .
  moreover have "length (filter (\<lambda>j. j \<in> set ?ps) [0..<?p])
                  + length (filter (\<lambda>j. j \<notin> set ?ps) [0..<?p]) = ?p"
    using sum_length_filter_compl [of "\<lambda>j. j \<in> set ?ps" "[0..<?p]"] by simp
  ultimately show ?thesis by simp
qed

text \<open>
  C1, as the code has it. The ID of a row is the counter of \<^verbatim>\<open>enumerate\<close>, which
  advances on every record, written or skipped. For a non-empty sequence of records with
  string titles whose file can be opened, the file holds the header and one row for each
  surviving position; the
  \<open>k\<close>-th row (counting from 0) is the record at position \<open>surviving results ! k\<close> of
  the input and carries that position plus one as its ID. The position is \<open>k\<close> plus the
  number of records skipped before it, and the IDs increase along the rows.
\<close>

theorem save_results_input_positions:
  assumes "\<forall>r \<in> set results. string_titled r" and "results \<noteq> []"
    and "open_w w (output_file cfg query timestamp) = None"
  shows "\<exists>rows.
           save_results cfg results query timestamp w =
             (None, print (''Results saved to '' @ output_file cfg query timestamp)
                (w\<lparr>files := (files w)(output_file cfg query timestamp \<mapsto> header # rows)\<rparr>))
         \<and> length rows = length (surviving results)
         \<and> (\<forall>k<length rows.
               rows ! k = csv_row (int (surviving results ! k) + 1)
                            (fields (results ! (surviving results ! k)))
             \<and> hd (rows ! k) = JInt (int (surviving results ! k) + 1)
             \<and> surviving results ! k < length results
             \<and> surviving results ! k =
                 k + length (filter (\<lambda>j. j \<notin> set (surviving results)) [0..<surviving results ! k])
             \<and> (\<forall>j<k. surviving results ! j < surviving results ! k))"
proof (intro exI conjI allI impI)
  let ?rows = "map (\<lambda>i. csv_row (int i + 1) (fields (results ! i))) (surviving results)"
  show "save_results cfg results query timestamp w =
             (None, print (''Results saved to '' @ output_file cfg query timestamp)
                (w\<lparr>files := (files w)(output_file cfg query timestamp \<mapsto> header # ?rows)\<rparr>))"
    using assms by (rule save_results_string_titled)
  show "length ?rows = length (surviving results)" by simp
  fix k assume "k < length ?rows"
  then have k: "k < length (surviving results)" by simp
  then show "?rows ! k = csv_row (int (surviving results ! k) + 1)
                            (fields (results ! (surviving results ! k)))"
    by simp
  then show "hd (?rows ! k) = JInt (int (surviving results ! k) + 1)"
    by (simp add: csv_row_def)
  have "surviving results ! k \<in> set (surviving results)" using k by simp
  then show "surviving results ! k < length results"
    by (auto simp add: surviving_def dest: first_positions_bound)
  show "surviving results ! k =
          k + length (filter (\<lambda>j. j \<notin> set (surviving results)) [0..<surviving results ! k])"
    using k unfolding surviving_def by (rule first_positions_skipped)
  fix j assume "j < k"
  with k show "surviving results ! j < surviving results ! k"
    using first_positions_sorted [of "map title_of results"]
    by (simp add: surviving_def sorted_wrt_nth_less)
qed

theorem save_results_input_positions_witness:
  "string_titled (paper ''A'' ''X'' ''l1'') \<and> string_titled (paper ''A'' ''Y'' ''l2'')
   \<and> string_titled (paper ''B'' ''Z'' ''l3'')
   \<and> files (snd (save_results cfg0 [paper ''A'' ''X'' ''l1'', paper ''A'' ''Y'' ''l2'', paper ''B'' ''Z'' ''l3'']
                    ''q'' ''2024-01-01_00-00-00'' world0))
        ''research_results/research_results_q_2024-01-01_00-00-00.csv''
     = Some [header,
             [JInt 1, JStr ''Research Paper'', JStr ''A'', JStr ''X'', JStr ''l1''],
             [JInt 3, JStr ''Research Paper'', JStr ''B'', JStr ''Z'', JStr ''l3'']]"
proof -
  have h: "\<forall>r \<in> set [paper ''A'' ''X'' ''l1'', paper ''A'' ''Y'' ''l2'', paper ''B'' ''Z'' ''l3'']. string_titled r"
    by (rule three_papers_titled)
  have n: "[paper ''A'' ''X'' ''l1'', paper ''A'' ''Y'' ''l2'', paper ''B'' ''Z'' ''l3''] \<noteq> []"
    by simp
  from save_results_input_positions [OF h n open_q]
  obtain rows where
    s: "save_results cfg0 [paper ''A'' ''X'' ''l1'', paper ''A'' ''Y'' ''l2'', paper ''B'' ''Z'' ''l3'']
          ''q'' ''2024-01-01_00-00-00'' world0 =
        (None, print (''Results saved to '' @ output_file cfg0 ''q'' ''2024-01-01_00-00-00'')
           (world0\<lparr>files := (files world0)(output_file cfg0 ''q'' ''2024-01-01_00-00-00'' \<mapsto> header # rows)\<rparr>))"
    and l: "length rows = 2"
    and r: "\<forall>k<length rows. rows ! k = csv_row (int (surviving [paper ''A'' ''X'' ''l1'', paper ''A'' ''Y'' ''l2'', paper ''B'' ''Z'' ''l3''] ! k) + 1)
                            (fields ([paper ''A'' ''X'' ''l1'', paper ''A'' ''Y'' ''l2'', paper ''B'' ''Z'' ''l3''] ! (surviving [paper ''A'' ''X'' ''l1'', paper ''A'' ''Y'' ''l2'', paper ''B'' ''Z'' ''l3''] ! k)))"
    unfolding three_papers_surviving by auto
  from l r have "rows ! 0 = csv_row 1 (fields (paper ''A'' ''X'' ''l1''))"
    and "rows ! 1 = csv_row 3 (fields (paper ''B'' ''Z'' ''l3''))"
    by (simp_all add: three_papers_surviving)
  with l have "rows = [csv_row 1 (fields (paper ''A'' ''X'' ''l1'')), csv_row 3 (fields (paper ''B'' ''Z'' ''l3''))]"
    by (cases rows; cases "tl rows"; cases "tl (tl rows)") auto
  with s h show ?thesis
    by (simp add: output_file_def path_join_def cfg0_def print_def)
       (simp add: csv_row_def paper_def item_get_def)
qed

text \<open>
  C1 as written fails: of three records, the second a duplicate of the first, the
  second row written is the third record and its ID is 3, not 2.
\<close>

theorem save_results_sequential_ids_counterexample:
  "data_rows (snd (save_results cfg0 [paper ''A'' ''X'' ''l1'', paper ''A'' ''Y'' ''l2'', paper ''B'' ''Z'' ''l3'']
                     ''q'' ''2024-01-01_00-00-00'' world0))
     ''research_results/research_results_q_2024-01-01_00-00-00.csv''
   = [JInt 1, JStr ''Research Paper'', JStr ''A'', JStr ''X'', JStr ''l1'']
     # [JInt 3, JStr ''Research Paper'', JStr ''B'', JStr ''Z'', JStr ''l3''] # []
   \<and> hd (data_rows (snd (save_results cfg0 [paper ''A'' ''X'' ''l1'', paper ''A'' ''Y'' ''l2'', paper ''B'' ''Z'' ''l3'']
                            ''q'' ''2024-01-01_00-00-00'' world0))
            ''research_results/research_results_q_2024-01-01_00-00-00.csv'' ! 1) \<noteq> JInt 2"
  by (simp add: save_results_def open_q)
     (simp add: paper_def item_get_def csv_row_def output_file_def path_join_def
        cfg0_def print_def data_rows_def header_def)

text \<open>
  C8. For the empty sequence the writer raises nothing, prints that no results were found
  and changes nothing else: the files and the requests are those of before.
\<close>

theorem save_results_empty:
  "save_results cfg [] query timestamp w
     = (None, w\<lparr>stdout := stdout w @ [''No results found. Skipping file save.'']\<rparr>)
   \<and> files (snd (save_results cfg [] query timestamp w)) = files w
   \<and> requests (snd (save_results cfg [] query timestamp w)) = requests w"
  by (simp add: save_results_def print_def)

section \<open>Properties of the formatter\<close>

lemma get_names_named:
  "\<forall>a \<in> set authors. named_author a \<Longrightarrow>
     get_names authors = Inr (map (\<lambda>a. JStr (name_or_NA a)) authors)"
proof (induction authors)
  case Nil
  then show ?case by simp
next
  case (Cons a authors)
  then have a: "named_author a" by simp
  then obtain kvs where kvs: "a = JObj kvs" by (cases a) (auto simp add: named_author_def)
  have "(case map_of kvs ''name'' of None \<Rightarrow> JStr ''N/A'' | Some v \<Rightarrow> v) = JStr (name_or_NA a)"
  proof (cases "map_of kvs ''name''")
    case None
    then show ?thesis by (simp add: name_or_NA_def kvs)
  next
    case (Some n)
    with a kvs have "is_str n" by (simp add: named_author_def)
    then show ?thesis using Some by (cases n) (simp_all add: name_or_NA_def kvs)
  qed
  with Cons show ?case by (simp add: kvs)
qed

lemma as_strs_JStr: "as_strs (map (\<lambda>a. JStr (f a)) xs) = Inr (map f xs)"
  by (induction xs) simp_all

lemma format_result_named:
  assumes "map_of kvs ''publication_info'' = Some (JObj info)"
    and "map_of info ''authors'' = Some (JArr authors)"
    and "authors \<noteq> []"
    and "\<forall>a \<in> set authors. named_author a"
  shows "format_result (JObj kvs) = Inr (formatted kvs (join_str '', '' (map name_or_NA authors)))"
  using assms
  by (simp add: format_result_def author_names_def get_names_named py_join_def as_strs_JStr
      formatted_def item_get_def)

lemma format_result_default:
  assumes "case map_of kvs ''publication_info'' of
             None \<Rightarrow> True
           | Some p \<Rightarrow> is_dict p \<and> (map_of (fields p) ''authors'' = None
                                      \<or> map_of (fields p) ''authors'' = Some (JArr []))"
  shows "format_result (JObj kvs) = Inr (formatted kvs ''N/A'')"
proof (cases "map_of kvs ''publication_info''")
  case None
  then show ?thesis
    by (simp add: format_result_def author_names_def py_join_def formatted_def item_get_def)
next
  case (Some p)
  with assms obtain info where "p = JObj info"
    "map_of info ''authors'' = None \<or> map_of info ''authors'' = Some (JArr [])"
    by (cases p) auto
  with Some show ?thesis
    by (auto simp add: format_result_def author_names_def py_join_def formatted_def item_get_def)
qed

lemma format_length:
  "format_google_scholar_results rs = Inr out \<Longrightarrow> length out = length rs"
  by (induction rs arbitrary: out) (auto split: sum.splits)

lemma format_nth:
  "format_google_scholar_results rs = Inr out \<Longrightarrow> i < length rs \<Longrightarrow>
     format_result (rs ! i) = Inr (out ! i)"
proof (induction rs arbitrary: out i)
  case Nil
  then show ?case by simp
next
  case (Cons r rs)
  then show ?case by (cases i) (auto split: sum.splits)
qed

lemma format_all:
  "\<forall>r \<in> set rs. \<exists>x. format_result r = Inr x \<Longrightarrow> \<exists>out. format_google_scholar_results rs = Inr out"
  by (induction rs) auto

lemma raw_result_formats:
  assumes "raw_result r"
  shows "\<exists>a. format_result r = Inr (formatted (fields r) a)"
proof -
  from assms obtain kvs where r: "r = JObj kvs" by (cases r) (auto simp add: raw_result_def)
  show ?thesis
  proof (cases "map_of kvs ''publication_info''")
    case None
    then show ?thesis using format_result_default [of kvs] by (auto simp add: r)
  next
    case (Some p)
    with assms r obtain info where p: "p = JObj info"
      by (cases p) (auto simp add: raw_result_def)
    show ?thesis
    proof (cases "map_of info ''authors''")
      case None
      with Some p show ?thesis using format_result_default [of kvs] by (auto simp add: r)
    next
      case (Some a)
      with assms r p \<open>map_of kvs ''publication_info'' = Some p\<close>
      obtain authors where a: "a = JArr authors" "list_all named_author authors"
        by (cases a) (auto simp add: raw_result_def)
      show ?thesis
      proof (cases "authors = []")
        case True
        with Some a p \<open>map_of kvs ''publication_info'' = Some p\<close> show ?thesis
          using format_result_default [of kvs] by (auto simp add: r)
      next
        case False
        with Some a p \<open>map_of kvs ''publication_info'' = Some p\<close> show ?thesis
          using format_result_named [of kvs info authors] by (auto simp add: r list_all_iff)
      qed
    qed
  qed
qed

lemma raw_results_format:
  assumes "\<forall>r \<in> set raws. raw_result r"
  shows "\<exists>out. format_google_scholar_results raws = Inr out \<and> length out = length raws
           \<and> (\<forall>i<length raws. string_titled (out ! i)
                  \<and> title_of (out ! i) = item_get (fields (raws ! i)) ''title'')"
proof -
  from assms have "\<forall>r \<in> set raws. \<exists>x. format_result r = Inr x"
    using raw_result_formats by blast
  then obtain out where out: "format_google_scholar_results raws = Inr out"
    using format_all by blast
  have "string_titled (out ! i) \<and> title_of (out ! i) = item_get (fields (raws ! i)) ''title''"
    if i: "i < length raws" for i
  proof -
    from i assms have rr: "raw_result (raws ! i)" by simp
    then obtain a where "format_result (raws ! i) = Inr (formatted (fields (raws ! i)) a)"
      using raw_result_formats by blast
    with format_nth [OF out i] have o: "out ! i = formatted (fields (raws ! i)) a" by simp
    have "is_str (item_get (fields (raws ! i)) ''title'')"
      using rr by (auto simp add: raw_result_def item_get_def split: option.splits)
    then show ?thesis
      by (simp add: o formatted_def string_titled_def title_of_def item_get_def)
  qed
  with out format_length [OF out] show ?thesis by blast
qed

lemma first_positions_iff:
  "i \<in> set (first_positions xs) \<longleftrightarrow> i < length xs \<and> (\<forall>m<i. xs ! m \<noteq> xs ! i)"
  by (auto simp add: first_positions_def in_set_conv_nth)





section \<open>Formatter and writer together\<close>

text \<open>
  C10, as the code has it. Of two titleless results the formatter gives both the title
  \<^verbatim>\<open>"N/A"\<close>, and the writer, when its file can be opened, writes the rows of the
  surviving positions and never the later one: its position is not among them. The earlier one is written exactly when no result before it is titleless
  or carries the title \<^verbatim>\<open>"N/A"\<close> itself.
\<close>

theorem titleless_records_collide:
  assumes "\<forall>r \<in> set raws. raw_result r"
    and "i < j" and "j < length raws"
    and "titleless (raws ! i)" and "titleless (raws ! j)"
    and "open_w w (output_file cfg query timestamp) = None"
  shows "\<exists>out. format_google_scholar_results raws = Inr out \<and> length out = length raws
         \<and> title_of (out ! i) = JStr ''N/A'' \<and> title_of (out ! j) = JStr ''N/A''
         \<and> save_results cfg out query timestamp w =
             (None, print (''Results saved to '' @ output_file cfg query timestamp)
                (w\<lparr>files := (files w)(output_file cfg query timestamp \<mapsto>
                   header # map (\<lambda>p. csv_row (int p + 1) (fields (out ! p))) (surviving out))\<rparr>))
         \<and> j \<notin> set (surviving out)
         \<and> (i \<in> set (surviving out) \<longleftrightarrow>
              (\<forall>m<i. item_get (fields (raws ! m)) ''title'' \<noteq> JStr ''N/A''))"
proof -
  from raw_results_format [OF assms(1)] obtain out where
    out: "format_google_scholar_results raws = Inr out" and len: "length out = length raws"
    and t: "\<forall>i<length raws. string_titled (out ! i)
                  \<and> title_of (out ! i) = item_get (fields (raws ! i)) ''title''"
    by blast
  have ij: "i < length raws" using assms by simp
  have ti: "title_of (out ! i) = JStr ''N/A''"
    using t ij assms(4) by (simp add: titleless_def item_get_def)
  have tj: "title_of (out ! j) = JStr ''N/A''"
    using t assms(3,5) by (simp add: titleless_def item_get_def)
  have st: "\<forall>r \<in> set out. string_titled r"
    using t len by (auto simp add: in_set_conv_nth)
  have ne: "out \<noteq> []" using len assms(3) by auto
  have "j \<notin> set (surviving out)"
    using ti tj len ij assms(2,3) by (auto simp add: surviving_def first_positions_iff)
  moreover have "i \<in> set (surviving out) \<longleftrightarrow>
              (\<forall>m<i. item_get (fields (raws ! m)) ''title'' \<noteq> JStr ''N/A'')"
    using ti t len ij by (auto simp add: surviving_def first_positions_iff)
  ultimately show ?thesis
    using out len ti tj save_results_string_titled [OF st ne assms(6)] by blast
qed

theorem titleless_records_collide_witness:
  "titleless (untitled ''b'') \<and> titleless (untitled ''c'')
   \<and> format_google_scholar_results [untitled ''b'', titled ''T'' ''t'', untitled ''c'']
       = Inr [paper ''N/A'' ''N/A'' ''b'', paper ''T'' ''N/A'' ''t'', paper ''N/A'' ''N/A'' ''c'']
   \<and> surviving [paper ''N/A'' ''N/A'' ''b'', paper ''T'' ''N/A'' ''t'', paper ''N/A'' ''N/A'' ''c''] = [0, 1]"
proof -
  have wf: "\<forall>r \<in> set [untitled ''b'', titled ''T'' ''t'', untitled ''c'']. raw_result r"
    by (simp add: raw_result_def untitled_def titled_def)
  have t: "titleless ([untitled ''b'', titled ''T'' ''t'', untitled ''c''] ! 0)"
    "titleless ([untitled ''b'', titled ''T'' ''t'', untitled ''c''] ! 2)"
    by (simp_all add: titleless_def untitled_def)
  have f: "format_google_scholar_results [untitled ''b'', titled ''T'' ''t'', untitled ''c'']
       = Inr [paper ''N/A'' ''N/A'' ''b'', paper ''T'' ''N/A'' ''t'', paper ''N/A'' ''N/A'' ''c'']"
    by (simp add: format_result_def author_names_def py_join_def untitled_def titled_def paper_def)
  have lt: "(0::nat) < 2" by simp
  have l2: "2 < length [untitled ''b'', titled ''T'' ''t'', untitled ''c'']" by simp
  from titleless_records_collide [OF wf lt l2 t open_q]
  obtain out where
    o: "format_google_scholar_results [untitled ''b'', titled ''T'' ''t'', untitled ''c''] = Inr out"
    and s: "2 \<notin> set (surviving out)"
    by blast
  from o have out: "out = [paper ''N/A'' ''N/A'' ''b'', paper ''T'' ''N/A'' ''t'', paper ''N/A'' ''N/A'' ''c'']"
    unfolding f by simp
  have "surviving [paper ''N/A'' ''N/A'' ''b'', paper ''T'' ''N/A'' ''t'', paper ''N/A'' ''N/A'' ''c''] = [0, 1]"
    by (simp add: surviving_def first_positions_def paper_def title_of_def item_get_def upt_rec)
  with s out show ?thesis
    using f by (simp add: titleless_def untitled_def)
qed

text \<open>
  C10 as written fails when a result titled \<^verbatim>\<open>"N/A"\<close> comes first: the first
  titleless result is dropped too, and the only row written is that of the titled result.
\<close>

theorem first_titleless_record_counterexample:
  "titleless (untitled ''b'') \<and> titleless (untitled ''c'')
   \<and> format_google_scholar_results [titled ''N/A'' ''a'', untitled ''b'', untitled ''c'']
       = Inr [paper ''N/A'' ''N/A'' ''a'', paper ''N/A'' ''N/A'' ''b'', paper ''N/A'' ''N/A'' ''c'']
   \<and> data_rows (snd (save_results cfg0
                       [paper ''N/A'' ''N/A'' ''a'', paper ''N/A'' ''N/A'' ''b'', paper ''N/A'' ''N/A'' ''c'']
                       ''q'' ''2024-01-01_00-00-00'' world0))
        ''research_results/research_results_q_2024-01-01_00-00-00.csv''
       = [JInt 1, JStr ''Research Paper'', JStr ''N/A'', JStr ''N/A'', JStr ''a''] # []"
  by (simp add: titleless_def untitled_def titled_def format_result_def author_names_def py_join_def
        save_results_def open_q)
     (simp add: paper_def item_get_def csv_row_def output_file_def path_join_def
        cfg0_def print_def data_rows_def header_def)

section \<open>Properties of the fetcher and the paginator\<close>

lemma fetch_value: "fst (fetch sess u ps w) = data_of (sess u ps)"
  by (simp add: fetch_def try_get_def data_of_def Let_def split: http_outcome.splits sum.splits)

lemma fetch_requests: "requests (snd (fetch sess u ps w)) = requests w @ [(u, ps)]"
  by (simp add: fetch_def try_get_def print_def Let_def split: http_outcome.splits sum.splits)

lemma fetch_files: "files (snd (fetch sess u ps w)) = files w"
  by (simp add: fetch_def try_get_def print_def Let_def split: http_outcome.splits sum.splits)

lemma fetch_batches_Cons:
  "fetch_batches cfg sess query (offset # later) acc w =
     (case page_at cfg sess query offset of
        Inl e \<Rightarrow> (Inl e, snd (fetch sess search_url (request_params cfg query offset) w))
      | Inr items \<Rightarrow>
          if length items < 10
          then (Inr (acc @ items), snd (fetch sess search_url (request_params cfg query offset) w))
          else fetch_batches cfg sess query later (acc @ items)
                 (snd (fetch sess search_url (request_params cfg query offset) w)))"
proof -
  obtain d w1 where f: "fetch sess ''https://serpapi.com/search'' (request_params cfg query offset) w = (d, w1)"
    by (cases "fetch sess ''https://serpapi.com/search'' (request_params cfg query offset) w")
  then have d: "d = data_of (sess ''https://serpapi.com/search'' (request_params cfg query offset))"
    using fetch_value [of sess "''https://serpapi.com/search''" "request_params cfg query offset" w] by simp
  show ?thesis
    by (simp add: f d [symmetric] page_at_def organic_results_def search_url_def split: sum.splits)
qed

lemma fetch_batches_full:
  assumes "\<forall>off \<in> set offs. \<exists>items. page_at cfg sess query off = Inr items \<and> 10 \<le> length items"
  shows "fst (fetch_batches cfg sess query offs acc w) = Inr (acc @ concat (map (page_items cfg sess query) offs))
       \<and> requests (snd (fetch_batches cfg sess query offs acc w)) = requests w @ map (request_at cfg query) offs
       \<and> files (snd (fetch_batches cfg sess query offs acc w)) = files w"
  using assms
proof (induction offs arbitrary: acc w)
  case Nil
  then show ?case by simp
next
  case (Cons off offs)
  then obtain items where i: "page_at cfg sess query off = Inr items" "10 \<le> length items"
    by auto
  have ih: "fst (fetch_batches cfg sess query offs a v) = Inr (a @ concat (map (page_items cfg sess query) offs))
       \<and> requests (snd (fetch_batches cfg sess query offs a v)) = requests v @ map (request_at cfg query) offs
       \<and> files (snd (fetch_batches cfg sess query offs a v)) = files v" for a v
    using Cons by simp
  have pi: "page_items cfg sess query off = items"
    using i by (simp add: page_items_def)
  show ?case
    using i
    by (simp add: fetch_batches_Cons ih pi fetch_requests fetch_files request_at_def
          del: fetch_batches.simps)
qed

lemma fetch_batches_short:
  assumes "\<forall>off \<in> set pre. \<exists>items. page_at cfg sess query off = Inr items \<and> 10 \<le> length items"
    and "page_at cfg sess query off = Inr items" and "length items < 10"
  shows "fst (fetch_batches cfg sess query (pre @ off # post) acc w)
           = Inr (acc @ concat (map (page_items cfg sess query) pre) @ items)
       \<and> requests (snd (fetch_batches cfg sess query (pre @ off # post) acc w))
           = requests w @ map (request_at cfg query) (pre @ [off])
       \<and> files (snd (fetch_batches cfg sess query (pre @ off # post) acc w)) = files w"
  using assms(1)
proof (induction pre arbitrary: acc w)
  case Nil
  then show ?case
    using assms(2,3)
    by (simp add: fetch_batches_Cons fetch_requests fetch_files request_at_def del: fetch_batches.simps)
next
  case (Cons p pre)
  then obtain its where i: "page_at cfg sess query p = Inr its" "10 \<le> length its"
    by auto
  have ih: "fst (fetch_batches cfg sess query (pre @ off # post) a v)
           = Inr (a @ concat (map (page_items cfg sess query) pre) @ items)
       \<and> requests (snd (fetch_batches cfg sess query (pre @ off # post) a v))
           = requests v @ map (request_at cfg query) (pre @ [off])
       \<and> files (snd (fetch_batches cfg sess query (pre @ off # post) a v)) = files v" for a v
    using Cons by simp
  have pi: "page_items cfg sess query p = its"
    using i by (simp add: page_items_def)
  show ?case
    using i
    by (simp add: fetch_batches_Cons ih pi fetch_requests fetch_files request_at_def
          del: fetch_batches.simps)
qed

lemma py_range_tens_from:
  "py_range (10 * int a) n 10 = map (\<lambda>i. 10 * int i) [a..<nat ((n + 9) div 10)]"
proof (induction "nat ((n + 9) div 10) - a" arbitrary: a)
  case 0
  then have "\<not> 10 * int a < n" by linarith
  moreover from 0 have "[a..<nat ((n + 9) div 10)] = []" by simp
  ultimately show ?case by (subst py_range.simps) simp
next
  case (Suc d)
  then have lt: "a < nat ((n + 9) div 10)" by linarith
  then have "10 * int a < n" by linarith
  moreover have "py_range (10 * int (Suc a)) n 10 = map (\<lambda>i. 10 * int i) [Suc a..<nat ((n + 9) div 10)]"
    using Suc by (intro Suc.hyps(1)) linarith
  then have "py_range (10 * int a + 10) n 10 = map (\<lambda>i. 10 * int i) [Suc a..<nat ((n + 9) div 10)]"
    by (simp add: add.commute)
  ultimately show ?case
    using lt by (subst py_range.simps) (simp add: upt_conv_Cons)
qed

lemma py_range_tens: "py_range 0 n 10 = map (\<lambda>i. 10 * int i) [0..<nat ((n + 9) div 10)]"
  using py_range_tens_from [of 0 n] by simp

lemma tens_below: "i < nat ((n + 9) div 10) \<longleftrightarrow> 10 * int i < n"
  by linarith

lemma failed_data: "failed answer \<Longrightarrow> data_of answer = JObj []"
  by (auto simp add: failed_def data_of_def split: http_outcome.splits sum.splits)

lemma failed_page: "failed answer \<Longrightarrow> organic_results answer = Inr []"
  by (simp add: organic_results_def failed_data)

lemma upt_split: "k < m \<Longrightarrow> [0..<m] = [0..<k] @ k # [Suc k..<m]"
  by (metis le_add1 less_imp_add_positive less_or_eq_imp_le upt_add_eq_append upt_conv_Cons plus_nat.add_0)

lemma paginate_full:
  assumes "\<forall>i<nat ((num_results + 9) div 10).
             \<exists>items. page_at cfg sess query (10 * int i) = Inr items \<and> 10 \<le> length items"
  shows "fst (get_google_scholar_results cfg sess query num_results w)
           = Inr (concat (map (\<lambda>i. page_items cfg sess query (10 * int i)) [0..<nat ((num_results + 9) div 10)]))
       \<and> requests (snd (get_google_scholar_results cfg sess query num_results w))
           = requests w @ map (\<lambda>i. request_at cfg query (10 * int i)) [0..<nat ((num_results + 9) div 10)]
       \<and> files (snd (get_google_scholar_results cfg sess query num_results w)) = files w"
proof -
  have "\<forall>off \<in> set (map (\<lambda>i. 10 * int i) [0..<nat ((num_results + 9) div 10)]).
          \<exists>items. page_at cfg sess query off = Inr items \<and> 10 \<le> length items"
    using assms by auto
  from fetch_batches_full [OF this, of "[]" w] show ?thesis
    by (simp add: get_google_scholar_results_def py_range_tens comp_def)
qed

lemma paginate_short:
  assumes "10 * int k < num_results"
    and "\<forall>i<k. \<exists>items. page_at cfg sess query (10 * int i) = Inr items \<and> 10 \<le> length items"
    and "page_at cfg sess query (10 * int k) = Inr items" and "length items < 10"
  shows "fst (get_google_scholar_results cfg sess query num_results w)
           = Inr (concat (map (\<lambda>i. page_items cfg sess query (10 * int i)) [0..<Suc k]))
       \<and> requests (snd (get_google_scholar_results cfg sess query num_results w))
           = requests w @ map (\<lambda>i. request_at cfg query (10 * int i)) [0..<Suc k]
       \<and> files (snd (get_google_scholar_results cfg sess query num_results w)) = files w"
proof -
  let ?m = "nat ((num_results + 9) div 10)"
  have km: "k < ?m" using assms(1) by (simp only: tens_below)
  have split: "map (\<lambda>i. 10 * int i) [0..<?m]
      = map (\<lambda>i. 10 * int i) [0..<k] @ 10 * int k # map (\<lambda>i. 10 * int i) [Suc k..<?m]"
    using upt_split [OF km] by (metis list.simps(9) map_append)
  have pre: "\<forall>off \<in> set (map (\<lambda>i. 10 * int i) [0..<k]).
          \<exists>items. page_at cfg sess query off = Inr items \<and> 10 \<le> length items"
    using assms(2) by auto
  have pk: "page_items cfg sess query (10 * int k) = items"
    using assms(3) by (simp add: page_items_def)
  from fetch_batches_short [OF pre assms(3,4), of "map (\<lambda>i. 10 * int i) [Suc k..<?m]" "[]" w]
  show ?thesis
    by (simp add: get_google_scholar_results_def py_range_tens split comp_def pk)
qed

text \<open>
  C5. Suppose every page the paginator can ask for yields its items without an exception.
  Then it sends \<open>n\<close> requests, at the offsets 0, 10, ..., \<open>10 (n - 1)\<close>, all below
  the requested total, and returns the items of these pages in order. Every page but the
  last has at least 10 items, and the last request is the last because its page has fewer
  than 10 items or because the next offset reaches the total; no request is sent only when
  the total is not positive. With a total of 50 and pages of exactly 10 items, \<open>n\<close> is 5.
\<close>

theorem pagination_stops:
  assumes ok: "\<forall>i. 10 * int i < num_results \<longrightarrow>
                 (\<exists>items. page_at cfg sess query (10 * int i) = Inr items)"
  shows "\<exists>n. fst (get_google_scholar_results cfg sess query num_results w)
               = Inr (concat (map (\<lambda>i. page_items cfg sess query (10 * int i)) [0..<n]))
           \<and> requests (snd (get_google_scholar_results cfg sess query num_results w))
               = requests w @ map (\<lambda>i. request_at cfg query (10 * int i)) [0..<n]
           \<and> (\<forall>i<n. 10 * int i < num_results)
           \<and> (\<forall>i. Suc i < n \<longrightarrow> 10 \<le> length (page_items cfg sess query (10 * int i)))
           \<and> (n = 0 \<longrightarrow> num_results \<le> 0)
           \<and> (0 < n \<longrightarrow> length (page_items cfg sess query (10 * int (n - 1))) < 10
                          \<or> num_results \<le> 10 * int n)
           \<and> (num_results = 50 \<longrightarrow>
                (\<forall>i<5. length (page_items cfg sess query (10 * int i)) = 10) \<longrightarrow> n = 5)"
proof -
  let ?m = "nat ((num_results + 9) div 10)"
  let ?len = "\<lambda>i. length (page_items cfg sess query (10 * int i))"
  have items: "page_at cfg sess query (10 * int i) = Inr (page_items cfg sess query (10 * int i))"
    if "i < ?m" for i
  proof -
    from that have "10 * int i < num_results" by (simp only: tens_below)
    with ok obtain items where "page_at cfg sess query (10 * int i) = Inr items" by blast
    then show ?thesis by (simp add: page_items_def)
  qed
  show ?thesis
  proof (cases "\<exists>i<?m. ?len i < 10")
    case False
    then have full: "\<forall>i<?m. 10 \<le> ?len i" by (meson not_less)
    then have "\<forall>i<?m. \<exists>items. page_at cfg sess query (10 * int i) = Inr items \<and> 10 \<le> length items"
      using items by blast
    from paginate_full [OF this, of w]
    have run: "fst (get_google_scholar_results cfg sess query num_results w)
           = Inr (concat (map (\<lambda>i. page_items cfg sess query (10 * int i)) [0..<?m]))"
      "requests (snd (get_google_scholar_results cfg sess query num_results w))
           = requests w @ map (\<lambda>i. request_at cfg query (10 * int i)) [0..<?m]"
      by simp_all
    have c3: "\<forall>i<?m. 10 * int i < num_results" by (simp only: tens_below) simp
    have c4: "\<forall>i. Suc i < ?m \<longrightarrow> 10 \<le> ?len i" using full by simp
    have c5: "?m = 0 \<longrightarrow> num_results \<le> 0" by linarith
    have c6: "0 < ?m \<longrightarrow> ?len (?m - 1) < 10 \<or> num_results \<le> 10 * int ?m" by linarith
    have c7: "num_results = 50 \<longrightarrow> (\<forall>i<5. ?len i = 10) \<longrightarrow> ?m = 5" by simp
    show ?thesis
      by (intro exI [of _ ?m] conjI) (rule run c3 c4 c5 c6 c7)+
  next
    case True
    define k where "k = (LEAST i. i < ?m \<and> ?len i < 10)"
    from True obtain i0 where "i0 < ?m \<and> ?len i0 < 10" by blast
    then have k: "k < ?m \<and> ?len k < 10"
      unfolding k_def by (rule LeastI)
    have before: "10 \<le> ?len i" if "i < k" for i
    proof -
      from that have "\<not> (i < ?m \<and> ?len i < 10)"
        unfolding k_def by (rule not_less_Least)
      with that k show ?thesis by simp
    qed
    have kr: "10 * int k < num_results" using k by (simp only: tens_below)
    have pre: "\<forall>i<k. \<exists>items. page_at cfg sess query (10 * int i) = Inr items \<and> 10 \<le> length items"
    proof (intro allI impI)
      fix i assume i: "i < k"
      with k have "i < ?m" by simp
      then have "page_at cfg sess query (10 * int i) = Inr (page_items cfg sess query (10 * int i))"
        by (rule items)
      with before [OF i]
      show "\<exists>items. page_at cfg sess query (10 * int i) = Inr items \<and> 10 \<le> length items"
        by simp
    qed
    have pk: "page_at cfg sess query (10 * int k) = Inr (page_items cfg sess query (10 * int k))"
      using k by (intro items) simp
    have sk: "length (page_items cfg sess query (10 * int k)) < 10" using k by simp
    from paginate_short [OF kr pre pk sk, of w]
    have run: "fst (get_google_scholar_results cfg sess query num_results w)
           = Inr (concat (map (\<lambda>i. page_items cfg sess query (10 * int i)) [0..<Suc k]))"
      "requests (snd (get_google_scholar_results cfg sess query num_results w))
           = requests w @ map (\<lambda>i. request_at cfg query (10 * int i)) [0..<Suc k]"
      by simp_all
    have c3: "\<forall>i<Suc k. 10 * int i < num_results"
    proof (intro allI impI)
      fix i assume "i < Suc k"
      with k have "i < ?m" by simp
      then show "10 * int i < num_results" by (simp only: tens_below)
    qed
    have c4: "\<forall>i. Suc i < Suc k \<longrightarrow> 10 \<le> ?len i" using before by simp
    have c5: "Suc k = 0 \<longrightarrow> num_results \<le> 0" by simp
    have c6: "0 < Suc k \<longrightarrow> ?len (Suc k - 1) < 10 \<or> num_results \<le> 10 * int (Suc k)"
      using k by simp
    have c7: "num_results = 50 \<longrightarrow> (\<forall>i<5. ?len i = 10) \<longrightarrow> Suc k = 5"
    proof (intro impI)
      assume "num_results = 50" and all: "\<forall>i<5. ?len i = 10"
      then have "k < 5" using k by simp
      with all k show "Suc k = 5" by simp
    qed
    show ?thesis
      by (intro exI [of _ "Suc k"] conjI) (rule run c3 c4 c5 c6 c7)+
  qed
qed

lemma ten_per_page_at: "page_at cfg0 ten_per_page ''q'' off = Inr ten_items"
  by (simp add: page_at_def organic_results_def data_of_def ten_per_page_def)

lemma ten_per_page_items: "page_items cfg0 ten_per_page ''q'' off = ten_items"
  by (simp add: page_items_def ten_per_page_at)

lemma length_ten_items: "length ten_items = 10"
  by (simp add: ten_items_def)

theorem pagination_stops_witness:
  "map (\<lambda>r. start (snd r)) (requests (snd (get_google_scholar_results cfg0 ten_per_page ''q'' 50 world0)))
     = [0, 10, 20, 30, 40]
   \<and> length (requests (snd (get_google_scholar_results cfg0 ten_per_page ''q'' 50 world0))) = 5"
proof -
  have ok: "\<forall>i. 10 * int i < 50 \<longrightarrow> (\<exists>items. page_at cfg0 ten_per_page ''q'' (10 * int i) = Inr items)"
    by (simp add: ten_per_page_at)
  from pagination_stops [OF ok, of world0] obtain n where
    r: "requests (snd (get_google_scholar_results cfg0 ten_per_page ''q'' 50 world0))
          = requests world0 @ map (\<lambda>i. request_at cfg0 ''q'' (10 * int i)) [0..<n]"
    and n: "(50::int) = 50 \<longrightarrow> (\<forall>i<5. length (page_items cfg0 ten_per_page ''q'' (10 * int i)) = 10) \<longrightarrow> n = 5"
    by blast
  from n have "n = 5" by (simp add: ten_per_page_items length_ten_items)
  with r show ?thesis
    by (simp add: world0_def request_at_def request_params_def upt_rec)
qed

text \<open>
  C6. When the fetch fails (a status other than 200, a body that does not decode, an
  exception of the transport), \<^verbatim>\<open>fetch\<close> returns the empty dict: the value it returns
  for a successful answer whose body is the empty dict, and one from which the caller takes
  the same items as from a successful answer with no results, namely none. The request has
  been sent once and no file is touched.
\<close>

theorem fetch_soft_fail:
  assumes "failed (sess u ps)"
  shows "fst (fetch sess u ps w) = JObj []
       \<and> fst (fetch sess u ps w) = fst (fetch (answering sess (u, ps) (Response 200 (Inr (JObj [])))) u ps w)
       \<and> dict_get (fst (fetch sess u ps w)) ''organic_results'' (JArr []) = Inr (JArr [])
       \<and> organic_results (sess u ps) = organic_results empty_page
       \<and> requests (snd (fetch sess u ps w)) = requests w @ [(u, ps)]
       \<and> files (snd (fetch sess u ps w)) = files w"
  using assms
  by (simp add: fetch_value fetch_requests fetch_files failed_data failed_page answering_def)
     (simp add: data_of_def organic_results_def empty_page_def)

theorem fetch_soft_fail_witness:
  "failed (down search_url (request_params cfg0 ''q'' 0))
   \<and> failed (unavailable search_url (request_params cfg0 ''q'' 0))
   \<and> fetch down search_url (request_params cfg0 ''q'' 0) world0
       = (JObj [], \<lparr>requests = [(search_url, request_params cfg0 ''q'' 0)], files = Map.empty,
                    stdout = [''Error fetching data from https://serpapi.com/search: timeout''],
                    dirs = {''research_results''}\<rparr>)
   \<and> fetch unavailable search_url (request_params cfg0 ''q'' 0) world0
       = (JObj [], \<lparr>requests = [(search_url, request_params cfg0 ''q'' 0)], files = Map.empty,
                    stdout = [''Error: Received status code 503 from https://serpapi.com/search''],
                    dirs = {''research_results''}\<rparr>)"
proof -
  have d: "failed (down search_url (request_params cfg0 ''q'' 0))"
    by (simp add: failed_def down_def)
  have u: "failed (unavailable search_url (request_params cfg0 ''q'' 0))"
    by (simp add: failed_def unavailable_def)
  have s: "str_int 503 = ''503''"
    by code_simp
  show ?thesis
    using d u
      fetch_soft_fail [where sess = down and u = search_url and ps = "request_params cfg0 ''q'' 0"
                         and w = world0, OF d]
      fetch_soft_fail [where sess = unavailable and u = search_url and ps = "request_params cfg0 ''q'' 0"
                         and w = world0, OF u]
    by (simp add: fetch_def try_get_def down_def unavailable_def print_def world0_def search_url_def s)
qed




















section \<open>Properties of the interactive loop\<close>

lemma isspace_lower: "py_isspace c \<Longrightarrow> lower_char c = c"
  by (auto simp add: py_isspace_def lower_char_def)

lemma blank_not_exit:
  assumes "\<forall>c \<in> set s. py_isspace c"
  shows "py_lower s \<noteq> ''exit''"
proof
  assume e: "py_lower s = ''exit''"
  have "py_lower s = s"
    unfolding py_lower_def using assms by (intro map_idI) (simp add: isspace_lower)
  with e have "CHR ''e'' \<in> set s" by simp
  with assms have "py_isspace (CHR ''e'')" by blast
  then show False by (simp add: py_isspace_def)
qed

lemma blank_strip:
  assumes "\<forall>c \<in> set s. py_isspace c"
  shows "py_strip s = []"
proof -
  from assms have d: "dropWhile py_isspace s = []" by (simp add: dropWhile_eq_Nil_conv)
  show ?thesis unfolding py_strip_def d by simp
qed

text \<open>
  C9. When the line typed is empty or consists of whitespace only, the iteration prints the
  prompt and the complaint and continues; no request is sent and no file is written, and the
  loop goes on with the next line in a world that differs in the printed lines only.
\<close>

theorem blank_input_reprompts:
  assumes "\<forall>c \<in> set (typed t). py_isspace c"
  shows "iteration cfg t w =
           (Inr Continue,
            w\<lparr>stdout := stdout w @ [prompt, ''Query is empty. Please enter a valid search keyword.'']\<rparr>)
       \<and> requests (snd (iteration cfg t w)) = requests w
       \<and> files (snd (iteration cfg t w)) = files w
       \<and> main cfg (t # ts) w =
           main cfg ts
             (w\<lparr>stdout := stdout w @ [prompt, ''Query is empty. Please enter a valid search keyword.'']\<rparr>)"
proof -
  have "iteration cfg t w =
           (Inr Continue,
            w\<lparr>stdout := stdout w @ [prompt, ''Query is empty. Please enter a valid search keyword.'']\<rparr>)"
    using blank_not_exit [OF assms] blank_strip [OF assms]
    by (simp add: iteration_def print_def Let_def)
  then show ?thesis by simp
qed

theorem blank_input_reprompts_witness:
  "py_isspace (CHR '' '') \<and> py_isspace (CHR 0x09)
   \<and> iteration cfg0 \<lparr>typed = [CHR '' '', CHR 0x09, CHR '' ''], net = ten_per_page, clock = ''2024-01-01_00-00-00''\<rparr> world0
       = (Inr Continue,
          \<lparr>requests = [], files = Map.empty,
           stdout = [prompt, ''Query is empty. Please enter a valid search keyword.''],
           dirs = {''research_results''}\<rparr>)
   \<and> iteration cfg0 \<lparr>typed = [], net = ten_per_page, clock = ''2024-01-01_00-00-00''\<rparr> world0
       = (Inr Continue,
          \<lparr>requests = [], files = Map.empty,
           stdout = [prompt, ''Query is empty. Please enter a valid search keyword.''],
           dirs = {''research_results''}\<rparr>)"
proof -
  have h: "\<forall>c \<in> set (typed \<lparr>typed = [CHR '' '', CHR 0x09, CHR '' ''], net = ten_per_page,
                                clock = ''2024-01-01_00-00-00''\<rparr>). py_isspace c"
    by (simp add: py_isspace_def)
  have e: "\<forall>c \<in> set (typed \<lparr>typed = [], net = ten_per_page, clock = ''2024-01-01_00-00-00''\<rparr>). py_isspace c"
    by simp
  show ?thesis
    using blank_input_reprompts [OF h, of cfg0 world0 "[]"] blank_input_reprompts [OF e, of cfg0 world0 "[]"]
    by (simp add: world0_def py_isspace_def)
qed

end
